theory Spec2Isabelle
  imports Main "HOL-Library.Sublist"
begin

section \<open>Python values and strings\<close>

text \<open>
  A Python \<^verbatim>\<open>str\<close> is modelled as a \<^typ>\<open>string\<close> holding its UTF-8 bytes. The
  regular-expression classes \<^verbatim>\<open>\d\<close> and \<^verbatim>\<open>\s\<close> are modelled on the ASCII range, where
  Python's \<^verbatim>\<open>re\<close> takes the ten decimal digits and the characters 0x09-0x0D, 0x1C-0x1F
  and the blank; titles whose digits and white space are ASCII are covered exactly.
\<close>

definition is_digit :: "char \<Rightarrow> bool" where
  "is_digit c = (c \<in> set ''0123456789'')"

definition is_space :: "char \<Rightarrow> bool" where
  "is_space c = (c \<in> set [CHR 0x09, CHR 0x0A, CHR 0x0B, CHR 0x0C, CHR 0x0D,
                           CHR 0x1C, CHR 0x1D, CHR 0x1E, CHR 0x1F, CHR '' ''])"

text \<open>The value of a run of decimal digits, most significant digit first.\<close>

definition digit_val :: "char \<Rightarrow> int" where
  "digit_val c = int (of_char c) - 48"

definition decimal :: "string \<Rightarrow> int" where
  "decimal ds = foldl (\<lambda>n c. 10 * n + digit_val c) 0 ds"

text \<open>\<^verbatim>\<open>numbers = re.findall(r'\d+', s)\<close> followed by \<^verbatim>\<open>int(numbers[0])\<close> when the list is
  not empty: the first maximal run of digits.\<close>

definition first_number :: "string \<Rightarrow> int option" where
  "first_number s =
     (let ds = takeWhile is_digit (dropWhile (\<lambda>c. \<not> is_digit c) s)
      in if ds = [] then None else Some (decimal ds))"

text \<open>\<^verbatim>\<open>int(s)\<close> on a string: surrounding white space is stripped, one sign is allowed,
  and the digits may be grouped by single underscores. \<open>None\<close> is \<^verbatim>\<open>ValueError\<close>.\<close>

definition strip :: "string \<Rightarrow> string" where
  "strip s = rev (dropWhile is_space (rev (dropWhile is_space s)))"

fun grouped_digits :: "string \<Rightarrow> bool" where
  "grouped_digits [] = False"
| "grouped_digits [c] = is_digit c"
| "grouped_digits (c # d # r) =
     (is_digit c \<and> (if d = CHR ''_'' then grouped_digits r else grouped_digits (d # r)))"

definition unsigned_int :: "string \<Rightarrow> int option" where
  "unsigned_int s =
     (if grouped_digits s then Some (decimal (filter (\<lambda>c. c \<noteq> CHR ''_'') s)) else None)"

definition py_int :: "string \<Rightarrow> int option" where
  "py_int s =
     (case strip s of
        [] \<Rightarrow> None
      | c # r \<Rightarrow>
          if c = CHR ''+'' then unsigned_int r
          else if c = CHR ''-'' then map_option uminus (unsigned_int r)
          else unsigned_int (c # r))"

datatype pyval =
    PNone
  | PInt int
  | PStr string
  | PIndirect (idnum: int) (generation: int) (pdf: nat) (referent: "pyval option")
  | PDict (struct_parents: "pyval option") (dict_str: string)
  | PObj (obj_str: string)

text \<open>
  \<open>PNone\<close> is \<^verbatim>\<open>None\<close>, \<open>PInt\<close> an \<^verbatim>\<open>int\<close>, \<open>PStr\<close> a \<^verbatim>\<open>str\<close>.
  \<open>PIndirect i g p t\<close> is an \<^verbatim>\<open>IndirectObject\<close> of the document-access library: object
  number, generation, the identity of the document it belongs to, and what
  \<^verbatim>\<open>get_object()\<close> gives (\<open>None\<close> when the call raises). \<open>PDict sp s\<close> is a dictionary
  with its \<^verbatim>\<open>/StructParents\<close> entry, if any, and its \<^verbatim>\<open>str()\<close> rendering; \<open>PObj s\<close> is any
  other object, known by its \<^verbatim>\<open>str()\<close> rendering.
\<close>

datatype 'a res = Raise | Ret 'a

datatype error = TypeError | LibraryError

section \<open>Title analysis (get\_pdf\_bookmark.py)\<close>

text \<open>The longest prefix of the form \<^verbatim>\<open>(\.\d+)*\<close>.\<close>

function dot_segments :: "string \<Rightarrow> string" where
  "dot_segments [] = []"
| "dot_segments (c # r) =
     (if c = CHR ''.'' \<and> takeWhile is_digit r \<noteq> []
      then c # takeWhile is_digit r @ dot_segments (dropWhile is_digit r)
      else [])"
  by pat_completeness auto
termination
  by (relation "measure length") (auto simp: less_Suc_eq_le length_dropWhile_le)

text \<open>\<^verbatim>\<open>re.match(r'^\d+(\.\d+)*', s)\<close>: the matched text \<^verbatim>\<open>group(0)\<close>, or \<open>None\<close>.\<close>

definition match_dotted :: "string \<Rightarrow> string option" where
  "match_dotted s =
     (let d = takeWhile is_digit s
      in if d = [] then None else Some (d @ dot_segments (dropWhile is_digit s)))"

text \<open>\<^verbatim>\<open>re.match(r'^\d+(\.\d+)+', s)\<close>: as before, with at least one dot segment.\<close>

definition match_dotted_plus :: "string \<Rightarrow> string option" where
  "match_dotted_plus s =
     (case match_dotted s of
        None \<Rightarrow> None
      | Some p \<Rightarrow> if CHR ''.'' \<in> set p then Some p else None)"

text \<open>The same patterns followed by \<^verbatim>\<open>\s\<close>. A digit run can only be followed by a dot or
  white space in a match, so the matched prefix is the longest one and no backtracking
  finds another.\<close>

definition followed_by_space :: "string \<Rightarrow> string \<Rightarrow> bool" where
  "followed_by_space p s = (case drop (length p) s of [] \<Rightarrow> False | c # _ \<Rightarrow> is_space c)"

definition match_dotted_space :: "string \<Rightarrow> bool" where
  "match_dotted_space s =
     (case match_dotted s of None \<Rightarrow> False | Some p \<Rightarrow> followed_by_space p s)"

definition match_dotted_plus_space :: "string \<Rightarrow> bool" where
  "match_dotted_plus_space s =
     (case match_dotted_plus s of None \<Rightarrow> False | Some p \<Rightarrow> followed_by_space p s)"

text \<open>\<^verbatim>\<open>len(re.findall(r'\.', s)) + 1\<close> and \<^verbatim>\<open>s.split(' ')[0]\<close>.\<close>

definition dot_parts :: "string \<Rightarrow> nat" where
  "dot_parts s = length (filter (\<lambda>c. c = CHR ''.'') s) + 1"

definition first_token :: "string \<Rightarrow> string" where
  "first_token s = takeWhile (\<lambda>c. c \<noteq> CHR '' '') s"

definition is_child_bookmark :: "string \<Rightarrow> string \<Rightarrow> bool" where
  "is_child_bookmark title parent_title =
     (if match_dotted_space parent_title \<and> match_dotted_plus_space title \<and>
         (case (match_dotted parent_title, match_dotted_plus title) of
            (Some parent_prefix, Some child_prefix) \<Rightarrow>
              prefix (parent_prefix @ ''.'') child_prefix
          | _ \<Rightarrow> False)
      then True
      else if dot_parts parent_title + 1 = dot_parts title \<and>
              prefix (first_token parent_title) title
      then True
      else False)"


section \<open>Hierarchy inference (get\_pdf\_bookmark.py)\<close>

text \<open>A bookmark is the dictionary with the keys \<^verbatim>\<open>title\<close>, \<^verbatim>\<open>page\<close> and \<^verbatim>\<open>level\<close>
  that \<^verbatim>\<open>flatten_bookmarks\<close> builds.\<close>

record bookmark =
  bm_title :: string
  bm_page :: pyval
  bm_level :: int

text \<open>One round of the outer loop of \<^verbatim>\<open>infer_bookmark_level\<close>: \<^verbatim>\<open>for j in range(i)\<close>
  stops at the first \<open>j\<close> whose title makes entry \<open>i\<close> a child.\<close>

definition infer_step :: "nat \<Rightarrow> bookmark list \<Rightarrow> bookmark list" where
  "infer_step i result =
     (case find (\<lambda>j. is_child_bookmark (bm_title (result ! i)) (bm_title (result ! j))) [0..<i] of
        None \<Rightarrow> result
      | Some j \<Rightarrow> result[i := (result ! i)\<lparr>bm_level := bm_level (result ! j) + 1\<rparr>])"

text \<open>The first pass copies every bookmark into a new dictionary with level 0; the
  auxiliary key \<^verbatim>\<open>original_index\<close> is added and removed again and is left out.\<close>

definition reset_levels :: "bookmark list \<Rightarrow> bookmark list" where
  "reset_levels bookmarks =
     map (\<lambda>b. \<lparr>bm_title = bm_title b, bm_page = bm_page b, bm_level = 0\<rparr>) bookmarks"

definition infer_bookmark_level :: "bookmark list \<Rightarrow> bookmark list" where
  "infer_bookmark_level bookmarks =
     (if bookmarks = [] then []
      else fold infer_step [1..<length bookmarks] (reset_levels bookmarks))"

text \<open>The first earlier entry of which entry \<open>i\<close> is a child by its title, if any.\<close>

definition first_parent :: "bookmark list \<Rightarrow> nat \<Rightarrow> nat option" where
  "first_parent bs i =
     find (\<lambda>j. is_child_bookmark (bm_title (bs ! i)) (bm_title (bs ! j))) [0..<i]"

definition three_titles :: "bookmark list" where
  "three_titles =
     [\<lparr>bm_title = ''1 A'', bm_page = PInt 1, bm_level = 0\<rparr>,
      \<lparr>bm_title = ''1.1 B'', bm_page = PInt 2, bm_level = 0\<rparr>,
      \<lparr>bm_title = ''1.1.1 C'', bm_page = PInt 3, bm_level = 0\<rparr>]"

section \<open>Destination resolution (get\_pdf\_bookmark.py)\<close>

text \<open>The reader is used through \<^verbatim>\<open>pdf_reader.pages\<close> only: the page table gives, for each
  page in order, its \<^verbatim>\<open>indirect_reference\<close> (\<open>PNone\<close> when the page has none).\<close>

type_synonym page_table = "pyval list"

text \<open>\<^verbatim>\<open>==\<close>: two indirect references are equal when object number, generation and
  document agree. Comparisons and the walk over the page table do not raise in the model,
  so the \<^verbatim>\<open>try\<close> blocks around the page-table loops have no failing branch.\<close>

fun py_eq :: "pyval \<Rightarrow> pyval \<Rightarrow> bool" where
  "py_eq (PIndirect i g p t) (PIndirect i' g' p' t') = (i = i' \<and> g = g' \<and> p = p')"
| "py_eq a b = (a = b)"

fun first_index :: "('a \<Rightarrow> bool) \<Rightarrow> 'a list \<Rightarrow> nat option" where
  "first_index P [] = None"
| "first_index P (x # xs) = (if P x then Some 0 else map_option Suc (first_index P xs))"

text \<open>\<^verbatim>\<open>for i, page in enumerate(pdf_reader.pages): if page.indirect_reference == ref:
  return i + 1\<close>, and the same loop comparing \<^verbatim>\<open>idnum\<close>.\<close>

definition page_by_identity :: "page_table \<Rightarrow> pyval \<Rightarrow> int option" where
  "page_by_identity pages ref =
     map_option (\<lambda>i. int i + 1) (first_index (\<lambda>page_ref. py_eq page_ref ref) pages)"

fun has_idnum :: "pyval \<Rightarrow> int \<Rightarrow> bool" where
  "has_idnum (PIndirect i g p t) n = (i = n)"
| "has_idnum v n = False"

definition page_by_idnum :: "page_table \<Rightarrow> int \<Rightarrow> int option" where
  "page_by_idnum pages n =
     map_option (\<lambda>i. int i + 1) (first_index (\<lambda>page_ref. has_idnum page_ref n) pages)"

text \<open>\<^verbatim>\<open>x + 1\<close> raises \<^verbatim>\<open>TypeError\<close> unless \<open>x\<close> is a number.\<close>

fun py_add1 :: "pyval \<Rightarrow> error + pyval" where
  "py_add1 (PInt n) = Inr (PInt (n + 1))"
| "py_add1 v = Inl TypeError"

text \<open>
  The outline entry is probed by attribute and key. The record holds the outcome of each
  probe of \<^verbatim>\<open>get_bookmark_page\<close> and \<^verbatim>\<open>get_bookmark_title\<close>:
  \<^item> \<open>rb_title\<close>: the \<^verbatim>\<open>title\<close> attribute, if there is one;
  \<^item> \<open>rb_page\<close>: \<^verbatim>\<open>hasattr(bookmark, 'page')\<close> and \<^verbatim>\<open>bookmark.page\<close>;
  \<^item> \<open>rb_has_Page\<close>, \<open>rb_has_D\<close>: \<^verbatim>\<open>'/Page' in bookmark\<close>, \<^verbatim>\<open>'/D' in bookmark\<close>;
  \<^item> \<open>rb_dest_number\<close>: \<^verbatim>\<open>pdf_reader.get_destination_page_number(bookmark)\<close>;
  \<^item> \<open>rb_D\<close>: \<^verbatim>\<open>bookmark['/D']\<close>, a list or something else;
  \<^item> \<open>rb_self\<close>: the object itself, an \<^verbatim>\<open>IndirectObject\<close> exactly when it is a \<open>PIndirect\<close>.
  \<open>Raise\<close> is a probe that raises an exception.
\<close>

datatype dest_value = DList "pyval list" | DOther

record raw_bookmark =
  rb_title :: "string option"
  rb_page :: "pyval option res"
  rb_has_Page :: "bool res"
  rb_dest_number :: "pyval res"
  rb_has_D :: "bool res"
  rb_D :: "dest_value res"
  rb_self :: pyval

text \<open>The inner \<^verbatim>\<open>try\<close> of the \<^verbatim>\<open>/D\<close> branch: \<^verbatim>\<open>get_object()\<close> and then
  \<^verbatim>\<open>obj['/StructParents'] + 1\<close>; whatever raises there is caught and gives no answer.\<close>

definition struct_parents_page :: "pyval \<Rightarrow> pyval option" where
  "struct_parents_page page_ref =
     (case page_ref of
        PIndirect i g p (Some (PDict (Some sp) s)) \<Rightarrow>
          (case py_add1 sp of Inl e \<Rightarrow> None | Inr v \<Rightarrow> Some v)
      | _ \<Rightarrow> None)"

text \<open>The \<^verbatim>\<open>/D\<close> branch for a non-empty list: \<open>Some v\<close> is \<^verbatim>\<open>return v\<close>, \<open>None\<close> is falling
  out of the branch.\<close>

definition dest_list_page :: "page_table \<Rightarrow> pyval list \<Rightarrow> pyval option" where
  "dest_list_page pages dest =
     (case dest of
        [] \<Rightarrow> None
      | page_ref # rest \<Rightarrow>
          (case page_by_identity pages page_ref of
             Some n \<Rightarrow> Some (PInt n)
           | None \<Rightarrow>
               (case page_ref of
                  PIndirect i g p t \<Rightarrow>
                    (case page_by_idnum pages i of
                       Some n \<Rightarrow> Some (PInt n)
                     | None \<Rightarrow> struct_parents_page page_ref)
                | _ \<Rightarrow> None)))"

text \<open>The part after the \<^verbatim>\<open>if/elif\<close> chain: an \<^verbatim>\<open>IndirectObject\<close> is looked up in the page
  table by identity, then by object number, and is estimated from the object number
  otherwise; anything else ends in \<^verbatim>\<open>return None\<close>.\<close>

definition indirect_page :: "page_table \<Rightarrow> pyval \<Rightarrow> pyval" where
  "indirect_page pages bookmark =
     (case bookmark of
        PIndirect i g p t \<Rightarrow>
          (case page_by_identity pages bookmark of
             Some n \<Rightarrow> PInt n
           | None \<Rightarrow>
               (case page_by_idnum pages i of
                  Some n \<Rightarrow> PInt n
                | None \<Rightarrow> PInt (min (i div 2) (int (length pages)))))
      | _ \<Rightarrow> PNone)"

text \<open>The body of the outer \<^verbatim>\<open>try\<close>; \<open>Inl\<close> is an exception on its way out.\<close>

definition get_bookmark_page_try :: "raw_bookmark \<Rightarrow> page_table \<Rightarrow> error + pyval" where
  "get_bookmark_page_try bookmark pages =
     (case rb_page bookmark of
        Raise \<Rightarrow> Inl LibraryError
      | Ret (Some page) \<Rightarrow> Inr page
      | Ret None \<Rightarrow>
          (case rb_has_Page bookmark of
             Raise \<Rightarrow> Inl TypeError
           | Ret True \<Rightarrow>
               (case rb_dest_number bookmark of
                  Raise \<Rightarrow> Inl LibraryError
                | Ret n \<Rightarrow> py_add1 n)
           | Ret False \<Rightarrow>
               (case rb_has_D bookmark of
                  Raise \<Rightarrow> Inl TypeError
                | Ret False \<Rightarrow> Inr (indirect_page pages (rb_self bookmark))
                | Ret True \<Rightarrow>
                    (case rb_D bookmark of
                       Raise \<Rightarrow> Inl LibraryError
                     | Ret DOther \<Rightarrow> Inr (indirect_page pages (rb_self bookmark))
                     | Ret (DList dest) \<Rightarrow>
                         (case dest_list_page pages dest of
                            Some v \<Rightarrow> Inr v
                          | None \<Rightarrow> Inr (indirect_page pages (rb_self bookmark)))))))"

text \<open>\<^verbatim>\<open>except Exception: return None\<close>.\<close>

definition get_bookmark_page :: "raw_bookmark \<Rightarrow> page_table \<Rightarrow> error + pyval" where
  "get_bookmark_page bookmark pages =
     (case get_bookmark_page_try bookmark pages of
        Inl e \<Rightarrow> Inr PNone
      | Inr v \<Rightarrow> Inr v)"

section \<open>Flattening the outline (get\_pdf\_bookmark.py)\<close>

text \<open>An outline is a Python list of outlines, or a single entry. \<^verbatim>\<open>get_bookmark_children\<close>
  probes the \<^verbatim>\<open>children\<close> attribute of an entry (calling it when it is callable): there is
  none, the probe raises, the value is not a list, or it is a list of outlines.\<close>

datatype 'a children_attr = NoChildren | ChildrenRaise | NotAList | Children 'a

datatype outline =
    OList "outline list"
  | OItem raw_bookmark "outline list children_attr"

text \<open>The default title of \<^verbatim>\<open>get_bookmark_title\<close>, three CJK characters in UTF-8.\<close>

definition untitled :: string where
  "untitled = [CHR 0xE6, CHR 0x97, CHR 0xA0, CHR 0xE6, CHR 0xA0, CHR 0x87, CHR 0xE9, CHR 0xA2, CHR 0x98]"

definition get_bookmark_title :: "raw_bookmark \<Rightarrow> string" where
  "get_bookmark_title bookmark =
     (case rb_title bookmark of Some t \<Rightarrow> t | None \<Rightarrow> untitled)"

fun get_bookmark_children :: "'a list children_attr \<Rightarrow> 'a list" where
  "get_bookmark_children (Children cs) = cs"
| "get_bookmark_children NoChildren = []"
| "get_bookmark_children ChildrenRaise = []"
| "get_bookmark_children NotAList = []"

text \<open>\<^verbatim>\<open>for x in xs: result.extend(f(x))\<close>, where an exception in a call leaves the loop.\<close>

fun extend_all :: "(error + 'a list) list \<Rightarrow> error + 'a list" where
  "extend_all [] = Inr []"
| "extend_all (Inl e # rs) = Inl e"
| "extend_all (Inr xs # rs) =
     (case extend_all rs of Inl e \<Rightarrow> Inl e | Inr ys \<Rightarrow> Inr (xs @ ys))"

function flatten_bookmarks :: "outline \<Rightarrow> page_table \<Rightarrow> int \<Rightarrow> error + bookmark list" where
  "flatten_bookmarks (OList bookmarks) pdf_reader level =
     extend_all (map (\<lambda>bookmark. flatten_bookmarks bookmark pdf_reader level) bookmarks)"
| "flatten_bookmarks (OItem bookmark ch) pdf_reader level =
     (case get_bookmark_page bookmark pdf_reader of
        Inl e \<Rightarrow> Inl e
      | Inr page \<Rightarrow>
          (case extend_all (map (\<lambda>child. flatten_bookmarks child pdf_reader (level + 1))
                             (get_bookmark_children ch)) of
             Inl e \<Rightarrow> Inl e
           | Inr rest \<Rightarrow>
               Inr (\<lparr>bm_title = get_bookmark_title bookmark, bm_page = page,
                      bm_level = level\<rparr> # rest)))"
  by pat_completeness auto
termination
proof (relation "measure (\<lambda>(b, r, l). size b)", goal_cases)
  case 1
  show ?case by simp
next
  case (2 bookmarks pdf_reader level bookmark)
  then show ?case
    using size_list_estimation' [of bookmark bookmarks "size bookmark" size]
    by (simp add: less_Suc_eq_le)
next
  case (3 bookmark ch pdf_reader level page child)
  then show ?case
    using size_list_estimation' [of child "get_bookmark_children ch" "size child" size]
    by (cases ch) (simp_all add: less_Suc_eq_le)
qed



text \<open>\<^verbatim>\<open>extract_bookmarks\<close> without its printing: the document is read (that may raise),
  flattened, and the levels are inferred when they are all 0 and there is more than one
  bookmark. Any exception ends in \<^verbatim>\<open>return []\<close>.\<close>

definition extract_bookmarks :: "(outline \<times> page_table) res \<Rightarrow> bookmark list" where
  "extract_bookmarks document =
     (case document of
        Raise \<Rightarrow> []
      | Ret (bookmarks, reader) \<Rightarrow>
          (case flatten_bookmarks bookmarks reader 0 of
             Inl e \<Rightarrow> []
           | Inr flat_bookmarks \<Rightarrow>
               if list_all (\<lambda>bm. bm_level bm = 0) flat_bookmarks \<and> length flat_bookmarks > 1
               then infer_bookmark_level flat_bookmarks
               else flat_bookmarks))"

text \<open>Some outline entries: an entry object with a title and a page attribute; an entry
  that is a bare indirect reference; a dictionary with a \<^verbatim>\<open>/D\<close> list; an entry whose first
  probe raises.\<close>

definition titled_entry :: "string \<Rightarrow> pyval \<Rightarrow> raw_bookmark" where
  "titled_entry t page =
     \<lparr>rb_title = Some t, rb_page = Ret (Some page), rb_has_Page = Ret True,
      rb_dest_number = Raise, rb_has_D = Ret False, rb_D = Raise, rb_self = PObj ''Destination''\<rparr>"

definition indirect_entry :: "pyval \<Rightarrow> raw_bookmark" where
  "indirect_entry ref =
     \<lparr>rb_title = None, rb_page = Ret None, rb_has_Page = Ret False,
      rb_dest_number = Raise, rb_has_D = Ret False, rb_D = Raise, rb_self = ref\<rparr>"

definition dest_entry :: "pyval list \<Rightarrow> raw_bookmark" where
  "dest_entry dest =
     \<lparr>rb_title = None, rb_page = Ret None, rb_has_Page = Ret False,
      rb_dest_number = Raise, rb_has_D = Ret True, rb_D = Ret (DList dest),
      rb_self = PDict None ''{}''\<rparr>"

definition raising_entry :: raw_bookmark where
  "raising_entry =
     \<lparr>rb_title = Some ''R'', rb_page = Raise, rb_has_Page = Raise,
      rb_dest_number = Raise, rb_has_D = Raise, rb_D = Raise, rb_self = PObj ''?''\<rparr>"

definition two_level_outline :: outline where
  "two_level_outline =
     OList [OItem (titled_entry ''1 A'' (PInt 1))
              (Children [OItem (titled_entry ''1.1 B'' (PInt 2)) NoChildren])]"

definition nested_list_outline :: outline where
  "nested_list_outline =
     OList [OItem (titled_entry ''1 A'' (PInt 1)) NoChildren,
            OList [OItem (titled_entry ''1.1 B'' (PInt 2)) NoChildren]]"

definition three_pages :: page_table where
  "three_pages = [PIndirect 10 0 0 None, PIndirect 11 0 0 None, PIndirect 12 0 0 None]"



section \<open>Page numbers and page ranges (split\_pdf.py)\<close>

text \<open>\<^verbatim>\<open>convert_to_page_number(page_obj, pdf_reader)\<close>; the reader is optional (\<open>None\<close>
  is the default \<^verbatim>\<open>pdf_reader=None\<close>, and a reader object counts as true). Its printing
  is left out. The only call that raises in the model, \<^verbatim>\<open>get_object()\<close>, is caught where
  it is made; when it returns, the conversion of its result is the answer. A string that
  \<^verbatim>\<open>int()\<close> rejects is searched for digits twice, as in the source: in the \<^verbatim>\<open>except\<close>
  branch and again through \<^verbatim>\<open>str(page_obj)\<close>.\<close>

fun convert_to_page_number :: "pyval \<Rightarrow> page_table option \<Rightarrow> int option" where
  "convert_to_page_number (PInt n) pdf_reader = Some n"
| "convert_to_page_number (PStr s) pdf_reader =
     (case py_int s of
        Some n \<Rightarrow> Some n
      | None \<Rightarrow> (case first_number s of Some n \<Rightarrow> Some n | None \<Rightarrow> first_number s))"
| "convert_to_page_number (PIndirect i g p t) pdf_reader =
     (case (case pdf_reader of
              None \<Rightarrow> None
            | Some pages \<Rightarrow>
                (case page_by_identity pages (PIndirect i g p t) of
                   Some n \<Rightarrow> Some n
                 | None \<Rightarrow> page_by_idnum pages i)) of
        Some n \<Rightarrow> Some n
      | None \<Rightarrow>
          (case t of
             Some actual_obj \<Rightarrow> convert_to_page_number actual_obj pdf_reader
           | None \<Rightarrow>
               (case pdf_reader of
                  Some pages \<Rightarrow> Some (min (i div 2) (int (length pages)))
                | None \<Rightarrow> Some i)))"
| "convert_to_page_number PNone pdf_reader = first_number ''None''"
| "convert_to_page_number (PDict sp s) pdf_reader = first_number s"
| "convert_to_page_number (PObj s) pdf_reader = first_number s"

text \<open>The dictionaries of the bookmark list are shared with the caller, so they live in
  a store: the list holds addresses, and \<^verbatim>\<open>level_bookmarks[i]['page'] = page_num\<close> updates
  the store.\<close>

type_synonym addr = nat

type_synonym store = "addr \<Rightarrow> bookmark"

datatype warning =
    NoBookmarkAtLevel int
  | PageNotConvertible string pyval
  | NoPageInformation string
  | NoValidPage
  | InvalidRange string int int

record planner_state =
  ps_store :: store
  ps_log :: "warning list"

fun page_value :: "int option \<Rightarrow> pyval" where
  "page_value None = PNone"
| "page_value (Some n) = PInt n"

text \<open>One round of \<^verbatim>\<open>for i, bookmark in enumerate(level_bookmarks)\<close>.\<close>

definition convert_step :: "page_table option \<Rightarrow> addr \<Rightarrow> planner_state \<Rightarrow> planner_state" where
  "convert_step pdf_reader a st =
     (let bookmark = ps_store st a; page_obj = bm_page bookmark
      in if page_obj \<noteq> PNone
         then let page_num = page_value (convert_to_page_number page_obj pdf_reader)
              in \<lparr>ps_store = (ps_store st)(a := bookmark\<lparr>bm_page := page_num\<rparr>),
                  ps_log = ps_log st @
                    (if page_num = PNone then [PageNotConvertible (bm_title bookmark) page_obj]
                     else [])\<rparr>
         else \<lparr>ps_store = (ps_store st)(a := bookmark\<lparr>bm_page := PNone\<rparr>),
               ps_log = ps_log st @ [NoPageInformation (bm_title bookmark)]\<rparr>)"

text \<open>\<^verbatim>\<open>isinstance(b['page'], int) and b['page'] > 0\<close>, and the page of a bookmark that
  passed this test.\<close>

fun valid_page :: "bookmark \<Rightarrow> bool" where
  "valid_page b = (case bm_page b of PInt n \<Rightarrow> n > 0 | _ \<Rightarrow> False)"

fun page_int :: "bookmark \<Rightarrow> int" where
  "page_int b = (case bm_page b of PInt n \<Rightarrow> n | _ \<Rightarrow> 0)"

record page_range =
  rg_title :: string
  rg_start :: int
  rg_end :: int

text \<open>The loop that computes the ranges, over the sorted bookmarks:
  \<^verbatim>\<open>level_bookmarks[i+1]\<close> is the head of the remaining list.\<close>

fun range_loop :: "int \<Rightarrow> bookmark list \<Rightarrow> page_range list \<times> warning list" where
  "range_loop total_pages [] = ([], [])"
| "range_loop total_pages (bookmark # rest) =
     (let start_page = page_int bookmark - 1;
          end_page = (case rest of [] \<Rightarrow> total_pages - 1 | next_bm # later \<Rightarrow> page_int next_bm - 2);
          (ranges, ws) = range_loop total_pages rest
      in if end_page \<ge> start_page
         then (\<lparr>rg_title = bm_title bookmark, rg_start = start_page, rg_end = end_page\<rparr> # ranges,
               ws)
         else (ranges, InvalidRange (bm_title bookmark) (start_page + 1) (end_page + 1) # ws))"

text \<open>The titles of the three synthetic ranges, CJK text in UTF-8.\<close>

definition front_title :: string where
  "front_title = [CHR 0xE5, CHR 0x89, CHR 0x8D, CHR 0xE8, CHR 0xA8, CHR 0x80, CHR 0xE9, CHR 0x83, CHR 0xA8, CHR 0xE5, CHR 0x88, CHR 0x86]"

definition back_title :: string where
  "back_title = [CHR 0xE9, CHR 0x99, CHR 0x84, CHR 0xE5, CHR 0xBD, CHR 0x95, CHR 0xE9, CHR 0x83, CHR 0xA8, CHR 0xE5, CHR 0x88, CHR 0x86]"

definition whole_title :: string where
  "whole_title = [CHR 0xE5, CHR 0xAE, CHR 0x8C, CHR 0xE6, CHR 0x95, CHR 0xB4, CHR 0xE6, CHR 0x96, CHR 0x87, CHR 0xE6, CHR 0xA1, CHR 0xA3]"

text \<open>The coverage check at the end of \<^verbatim>\<open>get_page_ranges\<close>; \<open>first_range\<close> and
  \<open>last_range\<close> are read before anything is inserted.\<close>

definition complete_coverage :: "int \<Rightarrow> page_range list \<Rightarrow> page_range list" where
  "complete_coverage total_pages ranges =
     (case ranges of
        [] \<Rightarrow> [\<lparr>rg_title = whole_title, rg_start = 0, rg_end = total_pages - 1\<rparr>]
      | first_range # others \<Rightarrow>
          (let last_range = last ranges;
               ranges1 = (if rg_start first_range > 0
                          then \<lparr>rg_title = front_title, rg_start = 0,
                                 rg_end = rg_start first_range - 1\<rparr> # ranges
                          else ranges)
           in if rg_end last_range < total_pages - 1
              then ranges1 @ [\<lparr>rg_title = back_title, rg_start = rg_end last_range + 1,
                                rg_end = total_pages - 1\<rparr>]
              else ranges1))"

record plan =
  pl_ranges :: "page_range list"
  pl_store :: store
  pl_log :: "warning list"

definition get_page_ranges ::
  "store \<Rightarrow> addr list \<Rightarrow> int \<Rightarrow> int \<Rightarrow> page_table option \<Rightarrow> plan" where
  "get_page_ranges h bookmarks total_pages split_level pdf_reader =
     (let level_bookmarks = filter (\<lambda>a. bm_level (h a) = split_level) bookmarks
      in if level_bookmarks = []
         then \<lparr>pl_ranges = [], pl_store = h, pl_log = [NoBookmarkAtLevel split_level]\<rparr>
         else
           let st = fold (convert_step pdf_reader) level_bookmarks \<lparr>ps_store = h, ps_log = []\<rparr>;
               valid = filter valid_page (map (ps_store st) level_bookmarks)
           in if valid = []
              then \<lparr>pl_ranges = [], pl_store = ps_store st, pl_log = ps_log st @ [NoValidPage]\<rparr>
              else
                let sorted_bookmarks = sort_key page_int valid;
                    (ranges, ws) = range_loop total_pages sorted_bookmarks
                in \<lparr>pl_ranges = complete_coverage total_pages ranges,
                    pl_store = ps_store st, pl_log = ps_log st @ ws\<rparr>)"

text \<open>
  Notions for the properties of the planner: what the conversion loop leaves in a page
  field and in a bookmark; the bookmarks of the split level with a valid page, in
  document order; the range computed for position \<open>i\<close> of the sorted list; and a list
  of ranges that follow each other without gap or overlap from \<open>a\<close> to \<open>b\<close>.
\<close>

definition resolve :: "page_table option \<Rightarrow> pyval \<Rightarrow> pyval" where
  "resolve pdf_reader page_obj =
     (if page_obj \<noteq> PNone then page_value (convert_to_page_number page_obj pdf_reader) else PNone)"

definition converted :: "page_table option \<Rightarrow> bookmark \<Rightarrow> bookmark" where
  "converted pdf_reader b = b\<lparr>bm_page := resolve pdf_reader (bm_page b)\<rparr>"

definition surviving_entries ::
  "store \<Rightarrow> addr list \<Rightarrow> int \<Rightarrow> page_table option \<Rightarrow> bookmark list" where
  "surviving_entries h bookmarks split_level pdf_reader =
     filter valid_page
       (map (\<lambda>a. converted pdf_reader (h a)) (filter (\<lambda>a. bm_level (h a) = split_level) bookmarks))"

definition candidate :: "int \<Rightarrow> bookmark list \<Rightarrow> nat \<Rightarrow> page_range" where
  "candidate total_pages bs i =
     \<lparr>rg_title = bm_title (bs ! i), rg_start = page_int (bs ! i) - 1,
      rg_end = (if i + 1 < length bs then page_int (bs ! (i + 1)) - 2 else total_pages - 1)\<rparr>"

fun chain :: "int \<Rightarrow> page_range list \<Rightarrow> int \<Rightarrow> bool" where
  "chain a [] b = (a = b + 1)"
| "chain a (r # rs) b = (rg_start r = a \<and> a \<le> rg_end r \<and> chain (rg_end r + 1) rs b)"

text \<open>A list of dictionaries written down by the caller: the dictionaries are allocated
  at the addresses \<open>0, 1, \<dots>\<close> and the list holds these addresses in order.\<close>

definition store_of :: "bookmark list \<Rightarrow> store" where
  "store_of bs a =
     (if a < length bs then bs ! a else \<lparr>bm_title = [], bm_page = PNone, bm_level = 0\<rparr>)"

definition bookmark_AB :: "bookmark list" where
  "bookmark_AB =
     [\<lparr>bm_title = ''A'', bm_page = PInt 5, bm_level = 0\<rparr>,
      \<lparr>bm_title = ''B'', bm_page = PInt 12, bm_level = 0\<rparr>]"

definition bookmark_overrun :: "bookmark list" where
  "bookmark_overrun =
     [\<lparr>bm_title = ''A'', bm_page = PInt 3, bm_level = 0\<rparr>,
      \<lparr>bm_title = ''B'', bm_page = PInt 25, bm_level = 0\<rparr>]"

definition bookmark_ref :: "bookmark list" where
  "bookmark_ref = [\<lparr>bm_title = ''A'', bm_page = PIndirect 11 0 0 None, bm_level = 0\<rparr>]"

section \<open>Title analysis\<close>














lemmas is_child_eval =
  is_child_bookmark_def match_dotted_space_def match_dotted_plus_space_def match_dotted_def
  match_dotted_plus_def followed_by_space_def is_digit_def is_space_def dot_parts_def
  first_token_def



section \<open>Hierarchy inference\<close>

lemma infer_step_length: "length (infer_step i res) = length res"
  by (simp add: infer_step_def split: option.splits)

lemma map_update_same: "f y = f (xs ! i) \<Longrightarrow> map f (xs[i := y]) = map f xs"
  by (induction xs arbitrary: i) (auto split: nat.splits)

lemma infer_step_title: "map bm_title (infer_step i res) = map bm_title res"
  by (simp add: infer_step_def map_update_same split: option.splits)

lemma infer_step_page: "map bm_page (infer_step i res) = map bm_page res"
  by (simp add: infer_step_def map_update_same split: option.splits)

lemma title_nth:
  "map bm_title res = map bm_title bs \<Longrightarrow> j < length bs \<Longrightarrow> bm_title (res ! j) = bm_title (bs ! j)"
  by (metis length_map nth_map)

lemma infer_step_parent:
  assumes "map bm_title res = map bm_title bs" "n < length bs"
  shows "infer_step n res =
     (case first_parent bs n of None \<Rightarrow> res
      | Some j \<Rightarrow> res[n := (res ! n)\<lparr>bm_level := bm_level (res ! j) + 1\<rparr>])"
proof -
  have "find (\<lambda>j. is_child_bookmark (bm_title (res ! n)) (bm_title (res ! j))) [0..<n]
      = first_parent bs n"
    unfolding first_parent_def
  proof (intro find_cong refl)
    fix j assume "j \<in> set [0..<n]"
    then have "j < length bs" using assms(2) by simp
    then show "is_child_bookmark (bm_title (res ! n)) (bm_title (res ! j)) =
               is_child_bookmark (bm_title (bs ! n)) (bm_title (bs ! j))"
      using title_nth [OF assms(1)] assms(2) by simp
  qed
  then show ?thesis by (simp add: infer_step_def)
qed

lemma first_parent_less: "first_parent bs i = Some j \<Longrightarrow> j < i"
  by (auto simp: first_parent_def find_Some_iff)

lemma infer_fold_inv:
  assumes "1 \<le> k" "k \<le> length bs"
  shows "let res = fold infer_step [1..<k] (reset_levels bs) in
     length res = length bs \<and> map bm_title res = map bm_title bs \<and>
     map bm_page res = map bm_page bs \<and>
     (\<forall>i<length bs. k \<le> i \<longrightarrow> bm_level (res ! i) = 0) \<and>
     (\<forall>i<k. bm_level (res ! i) =
        (case first_parent bs i of None \<Rightarrow> 0 | Some j \<Rightarrow> bm_level (res ! j) + 1))"
  using assms
proof (induction k rule: dec_induct)
  case base
  then show ?case
    by (cases bs) (auto simp: reset_levels_def first_parent_def comp_def)
next
  case (step n)
  define res where "res = fold infer_step [1..<n] (reset_levels bs)"
  have n: "n < length bs" using step.prems by simp
  have IH: "length res = length bs" "map bm_title res = map bm_title bs"
    "map bm_page res = map bm_page bs"
    "\<And>i. i < length bs \<Longrightarrow> n \<le> i \<Longrightarrow> bm_level (res ! i) = 0"
    "\<And>i. i < n \<Longrightarrow> bm_level (res ! i) =
        (case first_parent bs i of None \<Rightarrow> 0 | Some j \<Rightarrow> bm_level (res ! j) + 1)"
  proof -
    have "n \<le> length bs" using n by simp
    from step.IH [OF this]
    have *: "length res = length bs \<and> map bm_title res = map bm_title bs \<and>
       map bm_page res = map bm_page bs \<and>
       (\<forall>i<length bs. n \<le> i \<longrightarrow> bm_level (res ! i) = 0) \<and>
       (\<forall>i<n. bm_level (res ! i) =
          (case first_parent bs i of None \<Rightarrow> 0 | Some j \<Rightarrow> bm_level (res ! j) + 1))"
      unfolding res_def Let_def .
    from * show "length res = length bs" "map bm_title res = map bm_title bs"
      "map bm_page res = map bm_page bs" by blast+
    from * show "\<And>i. i < length bs \<Longrightarrow> n \<le> i \<Longrightarrow> bm_level (res ! i) = 0" by blast
    from * show "\<And>i. i < n \<Longrightarrow> bm_level (res ! i) =
        (case first_parent bs i of None \<Rightarrow> 0 | Some j \<Rightarrow> bm_level (res ! j) + 1)" by blast
  qed
  have upt: "[1..<Suc n] = [1..<n] @ [n]" using step.hyps by simp
  have res': "fold infer_step [1..<Suc n] (reset_levels bs) = infer_step n res"
    unfolding upt by (simp add: res_def)
  have st: "infer_step n res =
     (case first_parent bs n of None \<Rightarrow> res
      | Some j \<Rightarrow> res[n := (res ! n)\<lparr>bm_level := bm_level (res ! j) + 1\<rparr>])"
    using IH(2) n by (rule infer_step_parent)
  have later: "bm_level (infer_step n res ! i) = 0" if "i < length bs" "Suc n \<le> i" for i
    using that IH(1) IH(4) [of i] unfolding st by (simp split: option.splits)
  have earlier: "infer_step n res ! i = res ! i" if "i < n" for i
    using that unfolding st by (simp split: option.splits)
  have lev: "bm_level (infer_step n res ! i) =
        (case first_parent bs i of None \<Rightarrow> 0
         | Some j \<Rightarrow> bm_level (infer_step n res ! j) + 1)" if "i < Suc n" for i
  proof (cases "i = n")
    case True
    show ?thesis
    proof (cases "first_parent bs n")
      case None
      then show ?thesis using True IH(4) [of n] n st by simp
    next
      case (Some j)
      then have "j < n" by (rule first_parent_less)
      then show ?thesis using True Some n IH(1) st by simp
    qed
  next
    case False
    then have i: "i < n" using that by simp
    show ?thesis
    proof (cases "first_parent bs i")
      case None
      then show ?thesis using IH(5) [OF i] earlier [OF i] by simp
    next
      case (Some j)
      then have "j < n" using first_parent_less [OF Some] i by simp
      then show ?thesis using IH(5) [OF i] earlier [OF i] earlier [of j] Some by simp
    qed
  qed
  have "length (infer_step n res) = length bs" "map bm_title (infer_step n res) = map bm_title bs"
    "map bm_page (infer_step n res) = map bm_page bs"
    using IH(1-3) by (simp_all add: infer_step_length infer_step_title infer_step_page)
  with later lev show ?case
    unfolding res' Let_def by blast
qed

lemma infer_bookmark_level_fold:
  "bs \<noteq> [] \<Longrightarrow> infer_bookmark_level bs = fold infer_step [1..<length bs] (reset_levels bs)"
  by (simp add: infer_bookmark_level_def)

lemma infer_bookmark_level_props:
  "length (infer_bookmark_level bs) = length bs"
  "map bm_title (infer_bookmark_level bs) = map bm_title bs"
  "map bm_page (infer_bookmark_level bs) = map bm_page bs"
  "i < length bs \<Longrightarrow> bm_level (infer_bookmark_level bs ! i) =
     (case first_parent bs i of None \<Rightarrow> 0
      | Some j \<Rightarrow> bm_level (infer_bookmark_level bs ! j) + 1)"
proof -
  have *: "length (infer_bookmark_level bs) = length bs \<and>
     map bm_title (infer_bookmark_level bs) = map bm_title bs \<and>
     map bm_page (infer_bookmark_level bs) = map bm_page bs \<and>
     (\<forall>i<length bs. bm_level (infer_bookmark_level bs ! i) =
        (case first_parent bs i of None \<Rightarrow> 0
         | Some j \<Rightarrow> bm_level (infer_bookmark_level bs ! j) + 1))"
  proof (cases "bs = []")
    case True
    then show ?thesis by (simp add: infer_bookmark_level_def)
  next
    case False
    then have "1 \<le> length bs" by (simp add: Suc_le_eq)
    from infer_fold_inv [OF this order_refl] show ?thesis
      unfolding infer_bookmark_level_fold [OF False] Let_def by blast
  qed
  from * show "length (infer_bookmark_level bs) = length bs"
    "map bm_title (infer_bookmark_level bs) = map bm_title bs"
    "map bm_page (infer_bookmark_level bs) = map bm_page bs" by blast+
  from * show "i < length bs \<Longrightarrow> bm_level (infer_bookmark_level bs ! i) =
     (case first_parent bs i of None \<Rightarrow> 0
      | Some j \<Rightarrow> bm_level (infer_bookmark_level bs ! j) + 1)" by blast
qed

text \<open>
  C7: for each entry \<open>i\<close> in document order, the inferred level is the level of \<open>j\<close> plus
  one, where \<open>j\<close> is the first (smallest) index below \<open>i\<close> whose title makes entry \<open>i\<close> a
  child; the scan stops there. An entry with no such earlier entry has level 0. Titles and
  pages are those of the input.
\<close>

theorem C7_first_match_levels:
  assumes "i < length bs"
  shows "(\<forall>j<i. is_child_bookmark (bm_title (bs ! i)) (bm_title (bs ! j)) \<and>
            (\<forall>k<j. \<not> is_child_bookmark (bm_title (bs ! i)) (bm_title (bs ! k)))
           \<longrightarrow> bm_level (infer_bookmark_level bs ! i) = bm_level (infer_bookmark_level bs ! j) + 1)
       \<and> ((\<forall>j<i. \<not> is_child_bookmark (bm_title (bs ! i)) (bm_title (bs ! j)))
           \<longrightarrow> bm_level (infer_bookmark_level bs ! i) = 0)
       \<and> length (infer_bookmark_level bs) = length bs
       \<and> bm_title (infer_bookmark_level bs ! i) = bm_title (bs ! i)
       \<and> bm_page (infer_bookmark_level bs ! i) = bm_page (bs ! i)"
proof -
  let ?out = "infer_bookmark_level bs"
  let ?child = "\<lambda>j. is_child_bookmark (bm_title (bs ! i)) (bm_title (bs ! j))"
  have lev: "bm_level (?out ! i) =
     (case first_parent bs i of None \<Rightarrow> 0 | Some j \<Rightarrow> bm_level (?out ! j) + 1)"
    using assms by (rule infer_bookmark_level_props(4))
  have first: "bm_level (?out ! i) = bm_level (?out ! j) + 1"
    if "j < i" "?child j" "\<forall>k<j. \<not> ?child k" for j
  proof -
    have "first_parent bs i = Some j"
      unfolding first_parent_def find_Some_iff using that
      by (intro exI [of _ j]) auto
    then show ?thesis using lev by simp
  qed
  have none: "bm_level (?out ! i) = 0" if "\<forall>j<i. \<not> ?child j"
  proof -
    have "first_parent bs i = None"
      unfolding first_parent_def find_None_iff using that by auto
    then show ?thesis using lev by simp
  qed
  have "bm_title (?out ! i) = bm_title (bs ! i)"
    using infer_bookmark_level_props(2) [of bs] assms by (rule title_nth)
  moreover have "bm_page (?out ! i) = bm_page (bs ! i)"
    using infer_bookmark_level_props(3) [of bs] assms by (metis length_map nth_map)
  ultimately show ?thesis
    using first none infer_bookmark_level_props(1) [of bs] by blast
qed

theorem C7_first_match_levels_witness:
  "2 < length three_titles \<and>
   is_child_bookmark (bm_title (three_titles ! 2)) (bm_title (three_titles ! 0)) \<and>
   bm_level (infer_bookmark_level three_titles ! 0) = 0 \<and>
   bm_level (infer_bookmark_level three_titles ! 2) = 1"
proof -
  have l2: "2 < length three_titles" and l0: "0 < length three_titles"
    by (simp_all add: three_titles_def)
  have c: "is_child_bookmark (bm_title (three_titles ! 2)) (bm_title (three_titles ! 0))"
    by (simp add: three_titles_def is_child_eval)
  have z: "bm_level (infer_bookmark_level three_titles ! 0) = 0"
    using C7_first_match_levels [OF l0] by simp
  have "bm_level (infer_bookmark_level three_titles ! 2)
      = bm_level (infer_bookmark_level three_titles ! 0) + 1"
    using C7_first_match_levels [OF l2] c by auto
  with l2 c z show ?thesis by simp
qed

section \<open>Flattening and destination resolution\<close>




















lemmas flatten_eval =
  flatten_bookmarks.simps get_bookmark_page_def get_bookmark_page_try_def get_bookmark_title_def
  titled_entry_def indirect_entry_def dest_entry_def raising_entry_def three_pages_def
  indirect_page_def dest_list_page_def struct_parents_page_def page_by_identity_def
  page_by_idnum_def







text \<open>
  C8: \<^verbatim>\<open>extract_bookmarks\<close> hands the flattened list to the inferencer only when every level
  is 0 and there is more than one bookmark; otherwise (some level is not 0, or at most
  one bookmark) it returns the flattened list as it is. The inferencer itself changes
  nothing but the level field: length, titles and pages of its result are those of its
  input, for every input.
\<close>

theorem C8_inference_gate:
  assumes "flatten_bookmarks ol pages 0 = Inr flat_bookmarks"
  shows "((\<not> list_all (\<lambda>bm. bm_level bm = 0) flat_bookmarks \<or> length flat_bookmarks \<le> 1)
           \<longrightarrow> extract_bookmarks (Ret (ol, pages)) = flat_bookmarks)
       \<and> (list_all (\<lambda>bm. bm_level bm = 0) flat_bookmarks \<and> 1 < length flat_bookmarks
           \<longrightarrow> extract_bookmarks (Ret (ol, pages)) = infer_bookmark_level flat_bookmarks)
       \<and> length (infer_bookmark_level bs) = length bs
       \<and> map bm_title (infer_bookmark_level bs) = map bm_title bs
       \<and> map bm_page (infer_bookmark_level bs) = map bm_page bs"
  using assms by (auto simp: extract_bookmarks_def infer_bookmark_level_props)

theorem C8_inference_gate_witness:
  "flatten_bookmarks two_level_outline [] 0 =
     Inr [\<lparr>bm_title = ''1 A'', bm_page = PInt 1, bm_level = 0\<rparr>,
          \<lparr>bm_title = ''1.1 B'', bm_page = PInt 2, bm_level = 1\<rparr>]
   \<and> extract_bookmarks (Ret (two_level_outline, [])) =
       [\<lparr>bm_title = ''1 A'', bm_page = PInt 1, bm_level = 0\<rparr>,
        \<lparr>bm_title = ''1.1 B'', bm_page = PInt 2, bm_level = 1\<rparr>]
   \<and> flatten_bookmarks nested_list_outline [] 0 =
     Inr [\<lparr>bm_title = ''1 A'', bm_page = PInt 1, bm_level = 0\<rparr>,
          \<lparr>bm_title = ''1.1 B'', bm_page = PInt 2, bm_level = 0\<rparr>]
   \<and> extract_bookmarks (Ret (nested_list_outline, [])) =
       infer_bookmark_level [\<lparr>bm_title = ''1 A'', bm_page = PInt 1, bm_level = 0\<rparr>,
          \<lparr>bm_title = ''1.1 B'', bm_page = PInt 2, bm_level = 0\<rparr>]"
proof -
  have a: "flatten_bookmarks two_level_outline [] 0 =
     Inr [\<lparr>bm_title = ''1 A'', bm_page = PInt 1, bm_level = 0\<rparr>,
          \<lparr>bm_title = ''1.1 B'', bm_page = PInt 2, bm_level = 1\<rparr>]"
    by (simp add: two_level_outline_def flatten_eval)
  have b: "flatten_bookmarks nested_list_outline [] 0 =
     Inr [\<lparr>bm_title = ''1 A'', bm_page = PInt 1, bm_level = 0\<rparr>,
          \<lparr>bm_title = ''1.1 B'', bm_page = PInt 2, bm_level = 0\<rparr>]"
    by (simp add: nested_list_outline_def flatten_eval)
  from C8_inference_gate [OF a] C8_inference_gate [OF b] a b show ?thesis by simp
qed



section \<open>The range planner\<close>

lemma resolve_idem: "resolve rd (resolve rd v) = resolve rd v"
  by (cases "convert_to_page_number v rd") (auto simp: resolve_def)

lemma converted_idem: "converted rd (converted rd b) = converted rd b"
  by (simp add: converted_def resolve_idem)

lemma convert_step_store:
  "ps_store (convert_step rd a st) = (ps_store st)(a := converted rd (ps_store st a))"
  by (simp add: convert_step_def converted_def resolve_def Let_def)

lemma fold_convert_store:
  "ps_store (fold (convert_step rd) as st) a =
     (if a \<in> set as then converted rd (ps_store st a) else ps_store st a)"
proof (induction as arbitrary: st)
  case Nil
  show ?case by simp
next
  case (Cons x xs)
  show ?case
    by (simp add: Cons.IH convert_step_store converted_idem)
qed

lemma get_page_ranges_store:
  "pl_store (get_page_ranges h bs tp lvl rd) a =
     (if a \<in> set bs \<and> bm_level (h a) = lvl then converted rd (h a) else h a)"
  by (auto simp: get_page_ranges_def Let_def fold_convert_store filter_empty_conv
      split: prod.splits)

lemma map_converted_store:
  "map (ps_store (fold (convert_step rd) as \<lparr>ps_store = h, ps_log = []\<rparr>)) as
     = map (\<lambda>a. converted rd (h a)) as"
  by (simp add: fold_convert_store)

lemma get_page_ranges_ranges:
  "pl_ranges (get_page_ranges h bs tp lvl rd) =
     (if surviving_entries h bs lvl rd = [] then []
      else complete_coverage tp
             (fst (range_loop tp (sort_key page_int (surviving_entries h bs lvl rd)))))"
  unfolding get_page_ranges_def surviving_entries_def Let_def map_converted_store
  by (simp split: prod.splits)

lemma get_page_ranges_log:
  "surviving_entries h bs lvl rd \<noteq> [] \<Longrightarrow>
   \<exists>ws. pl_log (get_page_ranges h bs tp lvl rd) =
     ws @ snd (range_loop tp (sort_key page_int (surviving_entries h bs lvl rd)))"
  unfolding get_page_ranges_def surviving_entries_def Let_def map_converted_store
  by (auto split: prod.splits)

lemma candidate_Cons_0:
  "candidate tp (b # bs) 0 =
     \<lparr>rg_title = bm_title b, rg_start = page_int b - 1,
      rg_end = (case bs of [] \<Rightarrow> tp - 1 | n # later \<Rightarrow> page_int n - 2)\<rparr>"
  by (cases bs) (simp_all add: candidate_def)

lemma candidate_Cons_Suc: "candidate tp (b # bs) (Suc i) = candidate tp bs i"
  by (simp add: candidate_def)

lemma candidates_Cons:
  "map (candidate tp (b # bs)) [0..<length (b # bs)] =
     candidate tp (b # bs) 0 # map (candidate tp bs) [0..<length bs]"
proof -
  have "[0..<length (b # bs)] = 0 # map Suc [0..<length bs]"
    by (simp add: upt_conv_Cons map_Suc_upt del: upt_Suc)
  then show ?thesis by (simp add: candidate_Cons_Suc comp_def del: upt_Suc)
qed

lemma range_loop_candidates:
  "range_loop tp bs =
     (filter (\<lambda>r. rg_start r \<le> rg_end r) (map (candidate tp bs) [0..<length bs]),
      map (\<lambda>r. InvalidRange (rg_title r) (rg_start r + 1) (rg_end r + 1))
        (filter (\<lambda>r. \<not> rg_start r \<le> rg_end r) (map (candidate tp bs) [0..<length bs])))"
proof (induction bs)
  case Nil
  show ?case by simp
next
  case (Cons b bs)
  show ?case
    unfolding candidates_Cons range_loop.simps Cons.IH
    by (simp add: candidate_Cons_0 Let_def del: page_int.simps)
qed

lemma chain_append:
  "chain a (rs @ [r]) b \<longleftrightarrow> chain a rs (rg_start r - 1) \<and> rg_start r \<le> rg_end r \<and> rg_end r = b"
  by (induction rs arbitrary: a) auto

lemma chain_le: "chain a rs b \<Longrightarrow> a \<le> b + 1"
  by (induction rs arbitrary: a) fastforce+

lemma chain_bounds:
  "chain a rs b \<Longrightarrow> r \<in> set rs \<Longrightarrow> a \<le> rg_start r \<and> rg_start r \<le> rg_end r \<and> rg_end r \<le> b"
proof (induction rs arbitrary: a)
  case Nil
  then show ?case by simp
next
  case (Cons x xs)
  from Cons.prems(1) have c: "chain (rg_end x + 1) xs b" and x: "rg_start x = a" "a \<le> rg_end x"
    by simp_all
  show ?case
  proof (cases "r = x")
    case True
    then show ?thesis using chain_le [OF c] x by simp
  next
    case False
    then have "r \<in> set xs" using Cons.prems(2) by simp
    from Cons.IH [OF c this] x show ?thesis by simp
  qed
qed

lemma chain_union: "chain a rs b \<Longrightarrow> a \<le> b + 1 \<and> (\<Union>r\<in>set rs. {rg_start r..rg_end r}) = {a..b}"
proof (induction rs arbitrary: a)
  case Nil
  then show ?case by simp
next
  case (Cons x xs)
  from Cons.prems have x: "rg_start x = a" "a \<le> rg_end x" and c: "chain (rg_end x + 1) xs b"
    by simp_all
  from Cons.IH [OF c] have le: "rg_end x + 1 \<le> b + 1"
    and u: "(\<Union>r\<in>set xs. {rg_start r..rg_end r}) = {rg_end x + 1..b}" by simp_all
  have "{a..rg_end x} \<union> {rg_end x + 1..b} = {a..b}" using x le by auto
  then show ?case using x le u by simp
qed

lemma chain_sorted: "chain a rs b \<Longrightarrow> sorted (map rg_start rs)"
proof (induction rs arbitrary: a)
  case Nil
  then show ?case by simp
next
  case (Cons x xs)
  from Cons.prems have c: "chain (rg_end x + 1) xs b" and x: "rg_start x \<le> rg_end x" by simp_all
  have "rg_start x \<le> rg_start r" if "r \<in> set xs" for r
    using chain_bounds [OF c that] x by simp
  then show ?case using Cons.IH [OF c] by auto
qed

lemma chain_disjoint:
  "chain a rs b \<Longrightarrow> i < j \<Longrightarrow> j < length rs \<Longrightarrow> rg_end (rs ! i) < rg_start (rs ! j)"
proof (induction rs arbitrary: a i j)
  case Nil
  then show ?case by simp
next
  case (Cons x xs)
  from Cons.prems have c: "chain (rg_end x + 1) xs b" by simp
  obtain j' where j: "j = Suc j'" using Cons.prems(2) by (cases j) auto
  then have j': "j' < length xs" using Cons.prems(3) by simp
  show ?case
  proof (cases i)
    case 0
    have "rg_end x + 1 \<le> rg_start (xs ! j')"
      using chain_bounds [OF c nth_mem [OF j']] by simp
    then show ?thesis using 0 j by simp
  next
    case (Suc i')
    then show ?thesis using Cons.IH [OF c, of i' j'] Cons.prems(2) j j' by simp
  qed
qed

lemma chain_hd_last:
  "chain a rs b \<Longrightarrow> rs \<noteq> [] \<Longrightarrow> rg_start (hd rs) = a \<and> rg_end (last rs) = b"
  by (induction rs arbitrary: a) (auto split: if_splits)

lemma chain_complete_coverage:
  assumes "chain a rs (tp - 1)" "rs \<noteq> []" "0 \<le> a"
  shows "chain 0 (complete_coverage tp rs) (tp - 1)"
proof -
  obtain x xs where rs: "rs = x # xs" using assms(2) by (cases rs) auto
  from chain_hd_last [OF assms(1,2)] have hl: "rg_start x = a" "rg_end (last rs) = tp - 1"
    by (simp_all add: rs)
  show ?thesis
    using assms(1,3) hl unfolding complete_coverage_def rs [symmetric]
    by (simp add: rs Let_def)
qed

lemma range_loop_fst_Cons:
  "fst (range_loop tp (b # bs)) =
     (if page_int b - 1 \<le> (case bs of [] \<Rightarrow> tp - 1 | n # later \<Rightarrow> page_int n - 2)
      then \<lparr>rg_title = bm_title b, rg_start = page_int b - 1,
             rg_end = (case bs of [] \<Rightarrow> tp - 1 | n # later \<Rightarrow> page_int n - 2)\<rparr>
           # fst (range_loop tp bs)
      else fst (range_loop tp bs))"
  by (simp add: Let_def split: prod.splits del: page_int.simps)

lemma chain_range_loop:
  assumes "bs \<noteq> []" "sorted (map page_int bs)" "\<And>b. b \<in> set bs \<Longrightarrow> page_int b \<le> tp"
  shows "chain (page_int (hd bs) - 1) (fst (range_loop tp bs)) (tp - 1)
       \<and> fst (range_loop tp bs) \<noteq> []"
  using assms
proof (induction bs)
  case Nil
  then show ?case by simp
next
  case (Cons b bs)
  show ?case
  proof (cases bs)
    case Nil
    then show ?thesis using Cons.prems(3) [of b] by (simp del: page_int.simps)
  next
    case (Cons n later)
    have IH: "chain (page_int n - 1) (fst (range_loop tp bs)) (tp - 1)
       \<and> fst (range_loop tp bs) \<noteq> []"
      using Cons.IH Cons.prems Cons by (simp del: page_int.simps)
    have le: "page_int b \<le> page_int n" using Cons.prems(2) Cons by (simp del: page_int.simps)
    have e: "fst (range_loop tp (b # bs)) =
       (if page_int b < page_int n
        then \<lparr>rg_title = bm_title b, rg_start = page_int b - 1, rg_end = page_int n - 2\<rparr>
             # fst (range_loop tp bs)
        else fst (range_loop tp bs))"
      unfolding range_loop_fst_Cons using Cons by (auto simp del: page_int.simps)
    show ?thesis
    proof (cases "page_int b = page_int n")
      case True
      then show ?thesis using IH unfolding e by (simp del: page_int.simps range_loop.simps)
    next
      case False
      then have "page_int b < page_int n" using le by simp
      then show ?thesis using IH unfolding e by (simp del: page_int.simps range_loop.simps)
    qed
  qed
qed

lemma surviving_valid:
  "b \<in> set (surviving_entries h bs lvl rd) \<Longrightarrow> 1 \<le> page_int b"
  by (auto simp: surviving_entries_def split: pyval.splits)

lemma surviving_within:
  assumes "list_all (\<lambda>a. page_int (converted rd (h a)) \<le> tp) (filter (\<lambda>a. bm_level (h a) = lvl) bs)"
    and "b \<in> set (surviving_entries h bs lvl rd)"
  shows "page_int b \<le> tp"
  using assms unfolding surviving_entries_def list_all_iff by (auto simp del: page_int.simps)

lemma plan_chain:
  assumes "list_all (\<lambda>a. page_int (converted rd (h a)) \<le> tp) (filter (\<lambda>a. bm_level (h a) = lvl) bs)"
    and "pl_ranges (get_page_ranges h bs tp lvl rd) \<noteq> []"
  shows "chain 0 (pl_ranges (get_page_ranges h bs tp lvl rd)) (tp - 1)"
proof -
  let ?S = "surviving_entries h bs lvl rd"
  let ?srt = "sort_key page_int ?S"
  have S: "?S \<noteq> []" using assms(2) by (auto simp: get_page_ranges_ranges)
  then have srt: "?srt \<noteq> []" by (metis length_0_conv length_sort)
  have within: "page_int b \<le> tp" if "b \<in> set ?srt" for b
    using surviving_within [OF assms(1)] that by simp
  have c: "chain (page_int (hd ?srt) - 1) (fst (range_loop tp ?srt)) (tp - 1)
       \<and> fst (range_loop tp ?srt) \<noteq> []"
    using srt sorted_sort_key within by (rule chain_range_loop)
  have "hd ?srt \<in> set ?S" using hd_in_set [OF srt] by simp
  then have "0 \<le> page_int (hd ?srt) - 1" using surviving_valid by fastforce
  with c have "chain 0 (complete_coverage tp (fst (range_loop tp ?srt))) (tp - 1)"
    using chain_complete_coverage by blast
  then show ?thesis using S by (simp add: get_page_ranges_ranges)
qed

lemma plan_AB:
  "pl_ranges (get_page_ranges (store_of bookmark_AB) [0, 1] 20 0 pdf_reader) =
     [\<lparr>rg_title = front_title, rg_start = 0, rg_end = 3\<rparr>,
      \<lparr>rg_title = ''A'', rg_start = 4, rg_end = 10\<rparr>,
      \<lparr>rg_title = ''B'', rg_start = 11, rg_end = 19\<rparr>]"
  by (simp add: get_page_ranges_def store_of_def bookmark_AB_def convert_step_def
      complete_coverage_def Let_def)

text \<open>
  C1 (as stated): for every bookmark sequence, a non-empty plan lies within
  \<open>[0, total_pages - 1]\<close> and covers exactly these pages. With A on page 3 and B on page
  25 of a 20-page document the plan is not empty and its last range ends at index 23.
\<close>

theorem C1_counterexample:
  "pl_ranges (get_page_ranges (store_of bookmark_overrun) [0, 1] 20 0 None) =
     [\<lparr>rg_title = front_title, rg_start = 0, rg_end = 1\<rparr>,
      \<lparr>rg_title = ''A'', rg_start = 2, rg_end = 23\<rparr>]
   \<and> 20 - 1 < rg_end (last (pl_ranges
         (get_page_ranges (store_of bookmark_overrun) [0, 1] 20 0 None)))"
  by (simp add: get_page_ranges_def store_of_def bookmark_overrun_def convert_step_def
      complete_coverage_def Let_def)

text \<open>
  C1 (amended): let \<open>total_pages \<ge> 1\<close> and let no bookmark of the target level have a
  converted page beyond \<open>total_pages\<close>. Then a non-empty plan is sorted by start, its
  ranges are pairwise disjoint, every range satisfies \<open>0 \<le> start \<le> end \<le> total_pages - 1\<close>,
  and the union of the inclusive intervals is exactly \<open>{0, \<dots>, total_pages - 1}\<close>.
\<close>

theorem C1_plan_covers_document:
  assumes "1 \<le> total_pages"
    and "list_all (\<lambda>a. page_int (converted pdf_reader (h a)) \<le> total_pages)
           (filter (\<lambda>a. bm_level (h a) = split_level) bookmarks)"
    and "pl_ranges (get_page_ranges h bookmarks total_pages split_level pdf_reader) \<noteq> []"
  shows "let rs = pl_ranges (get_page_ranges h bookmarks total_pages split_level pdf_reader) in
           sorted (map rg_start rs)
         \<and> (\<forall>i j. i < j \<and> j < length rs \<longrightarrow>
               {rg_start (rs ! i)..rg_end (rs ! i)} \<inter> {rg_start (rs ! j)..rg_end (rs ! j)} = {})
         \<and> (\<forall>r\<in>set rs. 0 \<le> rg_start r \<and> rg_start r \<le> rg_end r \<and> rg_end r \<le> total_pages - 1)
         \<and> (\<Union>r\<in>set rs. {rg_start r..rg_end r}) = {0..total_pages - 1}"
proof -
  let ?rs = "pl_ranges (get_page_ranges h bookmarks total_pages split_level pdf_reader)"
  have c: "chain 0 ?rs (total_pages - 1)" using assms(2,3) by (rule plan_chain)
  have "{rg_start (?rs ! i)..rg_end (?rs ! i)} \<inter> {rg_start (?rs ! j)..rg_end (?rs ! j)} = {}"
    if "i < j" "j < length ?rs" for i j
    using chain_disjoint [OF c that] by auto
  moreover have "\<forall>r\<in>set ?rs. 0 \<le> rg_start r \<and> rg_start r \<le> rg_end r \<and> rg_end r \<le> total_pages - 1"
    using chain_bounds [OF c] by blast
  moreover have "(\<Union>r\<in>set ?rs. {rg_start r..rg_end r}) = {0..total_pages - 1}"
    using chain_union [OF c] by simp
  ultimately show ?thesis using chain_sorted [OF c] unfolding Let_def by blast
qed

theorem C1_plan_covers_document_witness:
  "(1::int) \<le> 20
   \<and> list_all (\<lambda>a. page_int (converted None (store_of bookmark_AB a)) \<le> 20)
       (filter (\<lambda>a. bm_level (store_of bookmark_AB a) = 0) [0, 1])
   \<and> pl_ranges (get_page_ranges (store_of bookmark_AB) [0, 1] 20 0 None) \<noteq> []
   \<and> (\<Union>r\<in>set (pl_ranges (get_page_ranges (store_of bookmark_AB) [0, 1] 20 0 None)).
         {rg_start r..rg_end r}) = {0..19}"
proof -
  have 1: "(1::int) \<le> 20" by simp
  have 2: "list_all (\<lambda>a. page_int (converted None (store_of bookmark_AB a)) \<le> 20)
       (filter (\<lambda>a. bm_level (store_of bookmark_AB a) = 0) [0, 1])"
    by (simp add: store_of_def bookmark_AB_def converted_def resolve_def)
  have 3: "pl_ranges (get_page_ranges (store_of bookmark_AB) [0, 1] 20 0 None) \<noteq> []"
    using plan_AB [of None] by simp
  from C1_plan_covers_document [OF 1 2 3] 1 2 3 show ?thesis
    unfolding Let_def by simp
qed

text \<open>
  C3 (as stated): bookmarks A on page 5 and B on page 12 of a 20-page document, split at
  level 0, give the ranges 0-4, 4-11 and 11-19. The planner does not return these bounds.
\<close>

theorem C3_counterexample:
  "map (\<lambda>r. (rg_start r, rg_end r))
     (pl_ranges (get_page_ranges (store_of bookmark_AB) [0, 1] 20 0 None))
   \<noteq> [(0, 4), (4, 11), (11, 19)]"
  using plan_AB [of None] by simp

text \<open>
  C3 (amended): on that input the planner returns exactly three ranges in order: the
  synthetic front range 0-3, the range 4-10 titled A and the range 11-19 titled B
  (0-based, inclusive), whatever reader is passed.
\<close>

theorem C3_plan_two_chapters:
  "pl_ranges (get_page_ranges (store_of bookmark_AB) [0, 1] 20 0 pdf_reader) =
     [\<lparr>rg_title = front_title, rg_start = 0, rg_end = 3\<rparr>,
      \<lparr>rg_title = ''A'', rg_start = 4, rg_end = 10\<rparr>,
      \<lparr>rg_title = ''B'', rg_start = 11, rg_end = 19\<rparr>]"
  by (rule plan_AB)

text \<open>
  C4: the bookmarks of the split level with a valid page are put in ascending order of
  page by a stable sort (bookmarks with the same page keep their document order). The
  range for position \<open>i\<close> of the sorted list starts at \<open>page i - 1\<close> and ends at
  \<open>page (i+1) - 2\<close>, or at \<open>total_pages - 1\<close> for the last position. The plan is built
  from exactly the ranges with \<open>start \<le> end\<close>; each range with \<open>end < start\<close> is left
  out, unrepaired, and leaves one warning at the end of the log.
\<close>

theorem C4_ranges_from_sorted_entries:
  "\<exists>srt ws.
      sorted (map page_int srt)
    \<and> (\<forall>p. filter (\<lambda>b. page_int b = p) srt =
            filter (\<lambda>b. page_int b = p) (surviving_entries h bookmarks split_level pdf_reader))
    \<and> pl_ranges (get_page_ranges h bookmarks total_pages split_level pdf_reader) =
        (if srt = [] then []
         else complete_coverage total_pages
                (filter (\<lambda>r. rg_start r \<le> rg_end r)
                   (map (candidate total_pages srt) [0..<length srt])))
    \<and> pl_log (get_page_ranges h bookmarks total_pages split_level pdf_reader) =
        ws @ (if srt = [] then []
              else map (\<lambda>r. InvalidRange (rg_title r) (rg_start r + 1) (rg_end r + 1))
                     (filter (\<lambda>r. rg_end r < rg_start r)
                        (map (candidate total_pages srt) [0..<length srt])))"
proof -
  let ?S = "surviving_entries h bookmarks split_level pdf_reader"
  let ?srt = "sort_key page_int ?S"
  let ?pl = "get_page_ranges h bookmarks total_pages split_level pdf_reader"
  have e: "?srt = [] \<longleftrightarrow> ?S = []" by (metis length_0_conv length_sort)
  have 1: "sorted (map page_int ?srt)" by (rule sorted_sort_key)
  have 2: "\<forall>p. filter (\<lambda>b. page_int b = p) ?srt = filter (\<lambda>b. page_int b = p) ?S"
    by (simp add: sort_key_stable del: page_int.simps)
  have 3: "pl_ranges ?pl =
        (if ?srt = [] then []
         else complete_coverage total_pages
                (filter (\<lambda>r. rg_start r \<le> rg_end r)
                   (map (candidate total_pages ?srt) [0..<length ?srt])))"
    unfolding get_page_ranges_ranges e by (simp add: range_loop_candidates)
  have 4: "\<exists>ws. pl_log ?pl =
        ws @ (if ?srt = [] then []
              else map (\<lambda>r. InvalidRange (rg_title r) (rg_start r + 1) (rg_end r + 1))
                     (filter (\<lambda>r. rg_end r < rg_start r)
                        (map (candidate total_pages ?srt) [0..<length ?srt])))"
  proof (cases "?S = []")
    case True
    then show ?thesis using e by simp
  next
    case False
    from get_page_ranges_log [OF False, of total_pages] False e show ?thesis
      by (simp add: range_loop_candidates not_le)
  qed
  from 1 2 3 4 show ?thesis by blast
qed

text \<open>
  C9 (as stated): planning leaves the caller's bookmarks as they were. A bookmark whose page
  is an indirect reference to the second page holds the integer 2 afterwards.
\<close>

theorem C9_counterexample:
  "map (pl_store (get_page_ranges (store_of bookmark_ref) [0] 3 0 (Some three_pages))) [0]
     = [\<lparr>bm_title = ''A'', bm_page = PInt 2, bm_level = 0\<rparr>]
   \<and> map (store_of bookmark_ref) [0]
     = [\<lparr>bm_title = ''A'', bm_page = PIndirect 11 0 0 None, bm_level = 0\<rparr>]"
  by (simp add: get_page_ranges_store store_of_def bookmark_ref_def converted_def resolve_def
      three_pages_def page_by_identity_def)

text \<open>
  C9 (amended): the planner changes nothing but the \<^verbatim>\<open>page\<close> field of the bookmarks of the
  split level that are in the list, where it stores the converted page; titles, levels,
  all other dictionaries and the list itself stay as they are, and a bookmark whose page
  is \<^verbatim>\<open>None\<close> or an integer already is not changed at all. The inferencer only reads its
  input: its result is a new list with the titles and pages of the input.
\<close>

theorem C9_planner_frame:
  "pl_store (get_page_ranges h bookmarks total_pages split_level pdf_reader) a =
     (if a \<in> set bookmarks \<and> bm_level (h a) = split_level
      then (h a)\<lparr>bm_page := resolve pdf_reader (bm_page (h a))\<rparr> else h a)
   \<and> bm_title (pl_store (get_page_ranges h bookmarks total_pages split_level pdf_reader) a)
       = bm_title (h a)
   \<and> bm_level (pl_store (get_page_ranges h bookmarks total_pages split_level pdf_reader) a)
       = bm_level (h a)
   \<and> (bm_page (h a) = PNone \<or> (\<exists>n. bm_page (h a) = PInt n) \<longrightarrow>
        pl_store (get_page_ranges h bookmarks total_pages split_level pdf_reader) a = h a)
   \<and> length (infer_bookmark_level (map h bookmarks)) = length bookmarks
   \<and> map bm_title (infer_bookmark_level (map h bookmarks)) = map (\<lambda>a. bm_title (h a)) bookmarks
   \<and> map bm_page (infer_bookmark_level (map h bookmarks)) = map (\<lambda>a. bm_page (h a)) bookmarks"
  by (auto simp: get_page_ranges_store converted_def resolve_def infer_bookmark_level_props comp_def)

theorem C9_planner_frame_witness:
  "bm_page (store_of bookmark_AB 0) = PInt 5
   \<and> pl_store (get_page_ranges (store_of bookmark_AB) [0, 1] 20 0 None) 0 = store_of bookmark_AB 0"
proof -
  have p: "bm_page (store_of bookmark_AB 0) = PInt 5"
    by (simp add: store_of_def bookmark_AB_def)
  from C9_planner_frame [of "store_of bookmark_AB" "[0, 1]" 20 0 None 0] p
  show ?thesis by blast
qed

end
